theory Spec2Isabelle
  imports Main
begin

section \<open>JavaScript arrays\<close>

text \<open>
  The history manager stores its states in a JavaScript array and uses two array
  operations: \<^verbatim>\<open>history.slice(start, end)\<close> and the index read \<^verbatim>\<open>history[k]\<close>.
  An array is a list. An index read outside the array gives \<^verbatim>\<open>undefined\<close>, which is
  \<open>None\<close> here. \<^verbatim>\<open>slice\<close> counts a negative bound from the end of the array and clamps
  both bounds to the array.
\<close>

definition array_get :: "'a list \<Rightarrow> int \<Rightarrow> 'a option" where
  "array_get xs k = (if 0 \<le> k \<and> k < int (length xs) then Some (xs ! nat k) else None)"

definition relative_index :: "nat \<Rightarrow> int \<Rightarrow> int" where
  "relative_index len k = (if k < 0 then max (int len + k) 0 else min k (int len))"

definition array_slice :: "'a list \<Rightarrow> int \<Rightarrow> int \<Rightarrow> 'a list" where
  "array_slice xs start end =
     (let k = relative_index (length xs) start;
          final = relative_index (length xs) end
      in take (nat (final - k)) (drop (nat k) xs))"

section \<open>The undo/redo history manager\<close>

text \<open>
  \<^verbatim>\<open>useHistory\<close> keeps two pieces of React state: the array \<^verbatim>\<open>history\<close>, initially empty,
  and the number \<^verbatim>\<open>currentIndex\<close>, initially \<open>-1\<close>. Each of \<^verbatim>\<open>pushState\<close>, \<^verbatim>\<open>undo\<close> and
  \<^verbatim>\<open>redo\<close> reads the state of the render it was created in and requests the next one
  through the setters; the model passes the state explicitly, one operation per render.
  \<^verbatim>\<open>undo\<close> and \<^verbatim>\<open>redo\<close> return a canvas state, or \<^verbatim>\<open>undefined\<close> (\<open>None\<close>) when their guard
  fails and the function body falls through.
\<close>

record 'a history_state =
  history :: "'a list"
  currentIndex :: int

definition initial_state :: "'a history_state" where
  "initial_state = \<lparr>history = [], currentIndex = -1\<rparr>"

definition pushState :: "'a \<Rightarrow> 'a history_state \<Rightarrow> 'a history_state" where
  "pushState state st =
     (let newHistory = array_slice (history st) 0 (currentIndex st + 1) @ [state]
      in \<lparr>history = newHistory, currentIndex = int (length newHistory) - 1\<rparr>)"

definition undo :: "'a history_state \<Rightarrow> 'a option \<times> 'a history_state" where
  "undo st =
     (if currentIndex st > 0
      then (array_get (history st) (currentIndex st - 1),
            st\<lparr>currentIndex := currentIndex st - 1\<rparr>)
      else (None, st))"

definition redo :: "'a history_state \<Rightarrow> 'a option \<times> 'a history_state" where
  "redo st =
     (if currentIndex st < int (length (history st)) - 1
      then (array_get (history st) (currentIndex st + 1),
            st\<lparr>currentIndex := currentIndex st + 1\<rparr>)
      else (None, st))"

text \<open>
  A sequence of calls made by the editor, run from left to right; the values returned by
  \<^verbatim>\<open>undo\<close> and \<^verbatim>\<open>redo\<close> are dropped, only the state is threaded.
\<close>

datatype 'a history_op = PushState 'a | Undo | Redo

fun history_step :: "'a history_op \<Rightarrow> 'a history_state \<Rightarrow> 'a history_state" where
  "history_step (PushState s) st = pushState s st"
| "history_step Undo st = snd (undo st)"
| "history_step Redo st = snd (redo st)"

fun run_ops :: "'a history_op list \<Rightarrow> 'a history_state \<Rightarrow> 'a history_state" where
  "run_ops [] st = st"
| "run_ops (op # ops) st = run_ops ops (history_step op st)"

text \<open>
  The states the hook can be in: the index is \<open>-1\<close> on the empty history and a position of
  the array otherwise.
\<close>

definition history_inv :: "'a history_state \<Rightarrow> bool" where
  "history_inv st =
     (if history st = [] then currentIndex st = - 1
      else 0 \<le> currentIndex st \<and> currentIndex st < int (length (history st)))"

text \<open>
  Calls made during one render. \<^verbatim>\<open>history\<close> and \<^verbatim>\<open>currentIndex\<close> are constants of a render,
  and the closures \<^verbatim>\<open>pushState\<close>, \<^verbatim>\<open>undo\<close> and \<^verbatim>\<open>redo\<close> of that render all read them. A
  setter call does not change what they read: it requests the value for the next render,
  and a later request for the same variable replaces an earlier one. So a call takes the
  rendered state \<open>st\<close>, which it reads, and the pending state, which it updates; the
  component renders again with the pending state once the calls are done.
\<close>

definition pushState_call ::
  "'a \<Rightarrow> 'a history_state \<Rightarrow> 'a history_state \<Rightarrow> 'a option \<times> 'a history_state" where
  "pushState_call state st pending =
     (let newHistory = array_slice (history st) 0 (currentIndex st + 1) @ [state]
      in (None, pending\<lparr>history := newHistory, currentIndex := int (length newHistory) - 1\<rparr>))"

definition undo_call ::
  "'a history_state \<Rightarrow> 'a history_state \<Rightarrow> 'a option \<times> 'a history_state" where
  "undo_call st pending =
     (if currentIndex st > 0
      then (array_get (history st) (currentIndex st - 1),
            pending\<lparr>currentIndex := currentIndex st - 1\<rparr>)
      else (None, pending))"

definition redo_call ::
  "'a history_state \<Rightarrow> 'a history_state \<Rightarrow> 'a option \<times> 'a history_state" where
  "redo_call st pending =
     (if currentIndex st < int (length (history st)) - 1
      then (array_get (history st) (currentIndex st + 1),
            pending\<lparr>currentIndex := currentIndex st + 1\<rparr>)
      else (None, pending))"

fun history_call ::
  "'a history_op \<Rightarrow> 'a history_state \<Rightarrow> 'a history_state \<Rightarrow> 'a option \<times> 'a history_state" where
  "history_call (PushState s) st pending = pushState_call s st pending"
| "history_call Undo st pending = undo_call st pending"
| "history_call Redo st pending = redo_call st pending"

fun same_render ::
  "'a history_op list \<Rightarrow> 'a history_state \<Rightarrow> 'a history_state \<Rightarrow>
     'a option list \<times> 'a history_state" where
  "same_render [] st pending = ([], pending)"
| "same_render (op # ops) st pending =
     (fst (history_call op st pending) #
        fst (same_render ops st (snd (history_call op st pending))),
      snd (same_render ops st (snd (history_call op st pending))))"

definition render ::
  "'a history_op list \<Rightarrow> 'a history_state \<Rightarrow> 'a option list \<times> 'a history_state" where
  "render ops st = same_render ops st st"

fun run_renders :: "'a history_op list list \<Rightarrow> 'a history_state \<Rightarrow> 'a history_state" where
  "run_renders [] st = st"
| "run_renders (ops # rest) st = run_renders rest (snd (render ops st))"

section \<open>The canvas event bridge\<close>

text \<open>
  \<^verbatim>\<open>useCanvasEvents\<close> receives the canvas (or \<^verbatim>\<open>null\<close>), the callback
  \<^verbatim>\<open>setSelectedObjects\<close> and the optional callback \<^verbatim>\<open>clearSelectionCallBack\<close>. The
  callbacks are opaque to the hook, so each is modelled by the list of actions (of an
  arbitrary type) that calling it performs; a handler is then the list of actions it
  performs on an event, in order.

  The \<^verbatim>\<open>selected\<close> field of a canvas event is optional: at run time it is an array or
  \<^verbatim>\<open>undefined\<close>. \<^verbatim>\<open>a || b\<close> is \<^verbatim>\<open>a\<close> when \<^verbatim>\<open>a\<close> is truthy and \<^verbatim>\<open>b\<close> otherwise; every array,
  also the empty one, is truthy, and \<^verbatim>\<open>undefined\<close> is not.
\<close>

datatype 'o js_value = Undefined | Array "'o list"

fun truthy :: "'o js_value \<Rightarrow> bool" where
  "truthy Undefined = False"
| "truthy (Array xs) = True"

definition js_or :: "'o js_value \<Rightarrow> 'o js_value \<Rightarrow> 'o js_value" where
  "js_or a b = (if truthy a then a else b)"

record 'o selection_event =
  selected :: "'o js_value"

record ('c, 'o, 'a) canvas_events_props =
  canvas :: "'c option"
  setSelectedObjects :: "'o js_value \<Rightarrow> 'a list"
  clearSelectionCallBack :: "'a list option"

text \<open>The three arrow functions handed to \<^verbatim>\<open>canvas.on\<close>, in the order of the source.\<close>

definition on_selection_created ::
  "('c, 'o, 'a) canvas_events_props \<Rightarrow> 'o selection_event \<Rightarrow> 'a list" where
  "on_selection_created props e = setSelectedObjects props (js_or (selected e) (Array []))"

definition on_selection_updated ::
  "('c, 'o, 'a) canvas_events_props \<Rightarrow> 'o selection_event \<Rightarrow> 'a list" where
  "on_selection_updated props e = setSelectedObjects props (js_or (selected e) (Array []))"

definition on_selection_cleared ::
  "('c, 'o, 'a) canvas_events_props \<Rightarrow> 'o selection_event \<Rightarrow> 'a list" where
  "on_selection_cleared props e =
     setSelectedObjects props (Array []) @
     (case clearSelectionCallBack props of None \<Rightarrow> [] | Some callback \<Rightarrow> callback)"

text \<open>
  The effect and its cleanup call methods of the canvas; each returns the calls it makes,
  in order. \<^verbatim>\<open>On c name h\<close> is \<^verbatim>\<open>c.on(name, h)\<close> and \<^verbatim>\<open>Off c name\<close> is \<^verbatim>\<open>c.off(name)\<close>.
\<close>

datatype ('c, 'o, 'a) canvas_call =
  On 'c string "'o selection_event \<Rightarrow> 'a list"
| Off 'c string

definition useCanvasEvents_effect ::
  "('c, 'o, 'a) canvas_events_props \<Rightarrow> ('c, 'o, 'a) canvas_call list" where
  "useCanvasEvents_effect props =
     (case canvas props of
        None \<Rightarrow> []
      | Some c \<Rightarrow>
          [On c ''selection:created'' (on_selection_created props),
           On c ''selection:updated'' (on_selection_updated props),
           On c ''selection:cleared'' (on_selection_cleared props)])"

definition useCanvasEvents_cleanup ::
  "('c, 'o, 'a) canvas_events_props \<Rightarrow> ('c, 'o, 'a) canvas_call list" where
  "useCanvasEvents_cleanup props =
     (case canvas props of
        None \<Rightarrow> []
      | Some c \<Rightarrow>
          [Off c ''selection:created'',
           Off c ''selection:updated'',
           Off c ''selection:cleared''])"

fun attached :: "('c, 'o, 'a) canvas_call \<Rightarrow> ('c \<times> string) option" where
  "attached (On c name h) = Some (c, name)"
| "attached (Off c name) = None"

fun detached :: "('c, 'o, 'a) canvas_call \<Rightarrow> ('c \<times> string) option" where
  "detached (On c name h) = None"
| "detached (Off c name) = Some (c, name)"

text \<open>
  The canvas belongs to the graphics library, whose event interface is: every canvas keeps,
  per event name, the list of its listeners; \<^verbatim>\<open>on\<close> adds a listener at the end of the
  list, \<^verbatim>\<open>off\<close> with a name alone removes every listener of that name, and firing an event
  runs the listeners of its name in the order they were added.
\<close>

type_synonym ('c, 'o, 'a) listeners = "'c \<Rightarrow> string \<Rightarrow> ('o selection_event \<Rightarrow> 'a list) list"

fun canvas_apply ::
  "('c, 'o, 'a) canvas_call \<Rightarrow> ('c, 'o, 'a) listeners \<Rightarrow> ('c, 'o, 'a) listeners" where
  "canvas_apply (On c name h) L = L(c := (L c)(name := L c name @ [h]))"
| "canvas_apply (Off c name) L = L(c := (L c)(name := []))"

definition run_calls ::
  "('c, 'o, 'a) canvas_call list \<Rightarrow> ('c, 'o, 'a) listeners \<Rightarrow> ('c, 'o, 'a) listeners" where
  "run_calls calls L = fold canvas_apply calls L"

definition fire ::
  "('c, 'o, 'a) listeners \<Rightarrow> 'c \<Rightarrow> string \<Rightarrow> 'o selection_event \<Rightarrow> 'a list" where
  "fire L c name e = concat (map (\<lambda>h. h e) (L c name))"

definition no_listeners :: "('c, 'o, 'a) listeners" where
  "no_listeners = (\<lambda>c name. [])"

text \<open>
  Callbacks that do nothing but record that they were called, and with which argument.
\<close>

datatype 'o callback_call = SetSelectedObjects "'o js_value" | ClearSelectionCallBack

definition recording_props ::
  "'c option \<Rightarrow> bool \<Rightarrow> ('c, 'o, 'o callback_call) canvas_events_props" where
  "recording_props cv provided =
     \<lparr>canvas = cv,
      setSelectedObjects = (\<lambda>objects. [SetSelectedObjects objects]),
      clearSelectionCallBack = (if provided then Some [ClearSelectionCallBack] else None)\<rparr>"

section \<open>Autosave\<close>

text \<open>
  \<^verbatim>\<open>useAutosave\<close> wraps an asynchronous function in \<^verbatim>\<open>debounce\<close> and calls the wrapper; when
  the wrapper's timer runs out, the asynchronous function runs. That function is modelled
  here; when it runs is not. \<^verbatim>\<open>saveProject\<close> is not part of the hook: it is a parameter,
  and its outcome is a rejection (\<open>Inl\<close>, also for a synchronous \<^verbatim>\<open>throw\<close>) or a value
  (\<open>Inr\<close>). A computation is its outcome together with the actions it performed.
\<close>

datatype ('d, 'x) autosave_action = SaveProject string 'd | ConsoleError string 'x

definition await_saveProject ::
  "(string \<Rightarrow> 'd \<Rightarrow> 'x + 'r) \<Rightarrow> string \<Rightarrow> 'd \<Rightarrow> ('x + unit) \<times> ('d, 'x) autosave_action list" where
  "await_saveProject saveProject projectId data =
     (case saveProject projectId data of
        Inl error \<Rightarrow> (Inl error, [SaveProject projectId data])
      | Inr result \<Rightarrow> (Inr (), [SaveProject projectId data]))"

definition console_error ::
  "string \<Rightarrow> 'x \<Rightarrow> ('x + unit) \<times> ('d, 'x) autosave_action list" where
  "console_error message error = (Inr (), [ConsoleError message error])"

definition try_catch ::
  "('x + 'v) \<times> 'act list \<Rightarrow> ('x \<Rightarrow> ('x + 'v) \<times> 'act list) \<Rightarrow> ('x + 'v) \<times> 'act list" where
  "try_catch body handler =
     (case fst body of
        Inr v \<Rightarrow> body
      | Inl error \<Rightarrow> (fst (handler error), snd body @ snd (handler error)))"

definition autosave ::
  "(string \<Rightarrow> 'd \<Rightarrow> 'x + 'r) \<Rightarrow> string \<Rightarrow> 'd \<Rightarrow> ('x + unit) \<times> ('d, 'x) autosave_action list" where
  "autosave saveProject projectId data =
     try_catch (await_saveProject saveProject projectId data)
       (\<lambda>error. console_error ''Autosave failed:'' error)"

section \<open>The shape tool button\<close>

text \<open>
  \<^verbatim>\<open>ShapeTool\<close> is a function from its props to an element tree; it uses no hook and reads
  nothing but its props. The icon component and the click handler are opaque values; the
  props object may carry further fields, which the component does not read.
  \<^verbatim>\<open>cn\<close> is imported from \<^verbatim>\<open>@/lib/utils\<close>; it is a parameter here, a function from its
  arguments (a class string or \<^verbatim>\<open>undefined\<close>) to a class string.
\<close>

datatype ('i, 'h) element =
  Button 'h string "('i, 'h) element list"
| Component 'i string

record ('i, 'h) shape_tool_props =
  icon :: 'i
  iconClassnane :: "string option"
  onClick :: 'h

definition ShapeTool ::
  "(string option list \<Rightarrow> string) \<Rightarrow> ('i, 'h, 'z) shape_tool_props_scheme \<Rightarrow>
     ('i, 'h) element" where
  "ShapeTool cn props =
     Button (onClick props) ''aspect-square border rounded-md p-5''
       [Component (icon props) (cn [Some ''h-full w-full'', iconClassnane props])]"

section \<open>Properties of the array operations\<close>

lemma relative_index_zero: "relative_index len 0 = 0"
  by (simp add: relative_index_def)

lemma relative_index_nonneg: "0 \<le> k \<Longrightarrow> relative_index len k = min k (int len)"
  by (simp add: relative_index_def)

lemma array_slice_prefix:
  assumes "- 1 \<le> i"
  shows "array_slice xs 0 (i + 1) = take (nat (i + 1)) xs"
proof -
  from assms have "0 \<le> i + 1" by simp
  then have fin: "relative_index (length xs) (i + 1) = min (i + 1) (int (length xs))"
    by (rule relative_index_nonneg)
  have "take (nat (min (i + 1) (int (length xs)))) xs = take (nat (i + 1)) xs"
  proof (cases "i + 1 \<le> int (length xs)")
    case True
    then show ?thesis by (simp add: min_def)
  next
    case False
    then have "length xs \<le> nat (i + 1)" by linarith
    with False show ?thesis by (simp add: min_def)
  qed
  then show ?thesis
    by (simp add: array_slice_def relative_index_zero fin)
qed

lemma array_get_in_range:
  "0 \<le> k \<Longrightarrow> k < int (length xs) \<Longrightarrow> array_get xs k = Some (xs ! nat k)"
  by (simp add: array_get_def)

section \<open>The invariant of the history manager\<close>

lemma history_inv_initial: "history_inv initial_state"
  by (simp add: history_inv_def initial_state_def)

lemma history_inv_pushState: "history_inv (pushState s st)"
  by (simp add: history_inv_def pushState_def Let_def)

lemma history_inv_undo: "history_inv st \<Longrightarrow> history_inv (snd (undo st))"
  by (auto simp: history_inv_def undo_def split: if_splits)

lemma history_inv_redo: "history_inv st \<Longrightarrow> history_inv (snd (redo st))"
  by (auto simp: history_inv_def redo_def split: if_splits)

lemma history_inv_step: "history_inv st \<Longrightarrow> history_inv (history_step op st)"
  by (cases op) (simp_all add: history_inv_pushState history_inv_undo history_inv_redo)

lemma history_inv_run_ops: "history_inv st \<Longrightarrow> history_inv (run_ops ops st)"
  by (induction ops arbitrary: st) (simp_all add: history_inv_step)

lemma history_inv_reachable: "history_inv (run_ops ops initial_state)"
  by (rule history_inv_run_ops [OF history_inv_initial])

lemma history_inv_bounds:
  "history_inv st \<Longrightarrow>
     - 1 \<le> currentIndex st \<and> currentIndex st \<le> int (length (history st)) - 1"
  by (auto simp: history_inv_def split: if_splits)

text \<open>
  Conversely, every state that satisfies the invariant is reached from the initial state:
  push the entries of its array one by one, then undo down to its index. So the invariant
  describes exactly the states of the hook.
\<close>

lemma run_ops_append: "run_ops (xs @ ys) st = run_ops ys (run_ops xs st)"
  by (induction xs arbitrary: st) simp_all

lemma pushState_at_end:
  assumes "currentIndex st = int (length (history st)) - 1"
  shows "pushState s st =
           \<lparr>history = history st @ [s], currentIndex = int (length (history st @ [s])) - 1\<rparr>"
proof -
  have "- 1 \<le> currentIndex st" using assms by simp
  then have "array_slice (history st) 0 (currentIndex st + 1) =
               take (nat (currentIndex st + 1)) (history st)"
    by (rule array_slice_prefix)
  also have "\<dots> = history st" using assms by simp
  finally show ?thesis by (simp add: pushState_def Let_def)
qed

lemma run_ops_pushes:
  "currentIndex st = int (length (history st)) - 1 \<Longrightarrow> xs \<noteq> [] \<Longrightarrow>
     run_ops (map PushState xs) st =
       \<lparr>history = history st @ xs, currentIndex = int (length (history st @ xs)) - 1\<rparr>"
proof (induction xs arbitrary: st)
  case Nil
  then show ?case by simp
next
  case (Cons x xs)
  let ?st' = "pushState x st"
  have st': "?st' = \<lparr>history = history st @ [x],
                      currentIndex = int (length (history st @ [x])) - 1\<rparr>"
    using Cons.prems(1) by (rule pushState_at_end)
  show ?case
  proof (cases "xs = []")
    case True
    then show ?thesis using st' by simp
  next
    case False
    have "currentIndex ?st' = int (length (history ?st')) - 1" by (simp add: st')
    from Cons.IH [OF this False] show ?thesis by (simp add: st')
  qed
qed

lemma run_ops_undos:
  "int k \<le> currentIndex st \<Longrightarrow>
     run_ops (replicate k Undo) st = st\<lparr>currentIndex := currentIndex st - int k\<rparr>"
proof (induction k arbitrary: st)
  case 0
  then show ?case by simp
next
  case (Suc k)
  then have pos: "0 < currentIndex st" by simp
  then have step: "snd (undo st) = st\<lparr>currentIndex := currentIndex st - 1\<rparr>"
    by (simp add: undo_def)
  have "int k \<le> currentIndex (st\<lparr>currentIndex := currentIndex st - 1\<rparr>)"
    using Suc.prems by simp
  from Suc.IH [OF this] show ?case by (simp add: step)
qed

lemma history_inv_complete:
  assumes "history_inv st"
  shows "\<exists>ops. run_ops ops initial_state = st"
proof (cases "history st = []")
  case True
  with assms have "currentIndex st = - 1" by (simp add: history_inv_def)
  with True have "run_ops [] initial_state = st" by (simp add: initial_state_def)
  then show ?thesis ..
next
  case False
  with assms have idx: "0 \<le> currentIndex st" "currentIndex st < int (length (history st))"
    by (simp_all add: history_inv_def)
  let ?k = "nat (int (length (history st)) - 1 - currentIndex st)"
  let ?full = "\<lparr>history = history st, currentIndex = int (length (history st)) - 1\<rparr>"
  have "currentIndex (initial_state :: 'a history_state) =
          int (length (history (initial_state :: 'a history_state))) - 1"
    by (simp add: initial_state_def)
  from run_ops_pushes [OF this False]
  have pushes: "run_ops (map PushState (history st)) initial_state = ?full"
    by (simp add: initial_state_def)
  have "int ?k \<le> currentIndex ?full" using idx by simp
  from run_ops_undos [OF this]
  have "run_ops (replicate ?k Undo) ?full = st" using idx by simp
  with pushes have "run_ops (map PushState (history st) @ replicate ?k Undo) initial_state = st"
    by (simp add: run_ops_append)
  then show ?thesis ..
qed

lemma undo_redo_inv:
  assumes "history_inv st" and "0 < currentIndex st"
  shows "snd (redo (snd (undo st))) = st"
    and "fst (redo (snd (undo st))) = Some (history st ! nat (currentIndex st))"
proof -
  from assms have lt: "currentIndex st < int (length (history st))"
    by (auto simp: history_inv_def split: if_splits)
  from assms(2) have u: "snd (undo st) = st\<lparr>currentIndex := currentIndex st - 1\<rparr>"
    by (simp add: undo_def)
  from lt show "snd (redo (snd (undo st))) = st"
    by (simp add: u redo_def)
  from lt assms(2) show "fst (redo (snd (undo st))) = Some (history st ! nat (currentIndex st))"
    by (simp add: u redo_def array_get_def)
qed

section \<open>Calls made during one render\<close>

text \<open>
  A render in which one call is made is the step of that call; a render with any calls
  preserves the invariant, so the states reached through renders are the same states.
\<close>

lemma undo_call_self: "undo_call st st = undo st"
  by (simp add: undo_call_def undo_def)

lemma redo_call_self: "redo_call st st = redo st"
  by (simp add: redo_call_def redo_def)

lemma pushState_call_self: "pushState_call s st st = (None, pushState s st)"
  by (simp add: pushState_call_def pushState_def Let_def)

lemma render_single: "snd (render [op] st) = history_step op st"
  by (cases op) (simp_all add: render_def undo_call_self redo_call_self pushState_call_self)

lemma render_undo: "render [Undo] st = ([fst (undo st)], snd (undo st))"
  by (simp add: render_def undo_call_self)

lemma render_redo: "render [Redo] st = ([fst (redo st)], snd (redo st))"
  by (simp add: render_def redo_call_self)

lemma pending_call:
  assumes "history_inv st"
    and "history_inv p \<and>
         (history p = history st \<or> int (length (history p)) = currentIndex st + 2)"
  shows "history_inv (snd (history_call op st p)) \<and>
         (history (snd (history_call op st p)) = history st \<or>
          int (length (history (snd (history_call op st p)))) = currentIndex st + 2)"
proof (cases op)
  case (PushState s)
  from assms(1) have b: "- 1 \<le> currentIndex st" "currentIndex st \<le> int (length (history st)) - 1"
    using history_inv_bounds by blast+
  have "array_slice (history st) 0 (currentIndex st + 1) =
          take (nat (currentIndex st + 1)) (history st)"
    using b(1) by (rule array_slice_prefix)
  with b show ?thesis
    by (simp add: PushState pushState_call_def Let_def history_inv_def)
next
  case Undo
  with assms show ?thesis
    by (auto simp: undo_call_def history_inv_def split: if_splits)
next
  case Redo
  with assms show ?thesis
    by (auto simp: redo_call_def history_inv_def split: if_splits)
qed

lemma pending_same_render:
  assumes "history_inv st"
  shows "history_inv p \<and>
         (history p = history st \<or> int (length (history p)) = currentIndex st + 2) \<Longrightarrow>
         history_inv (snd (same_render ops st p))"
proof (induction ops arbitrary: p)
  case Nil
  then show ?case by simp
next
  case (Cons op ops)
  from pending_call [OF assms Cons.prems, of op] Cons.IH show ?case by simp
qed

lemma history_inv_render: "history_inv st \<Longrightarrow> history_inv (snd (render ops st))"
  unfolding render_def by (rule pending_same_render) simp_all

lemma history_inv_run_renders: "history_inv st \<Longrightarrow> history_inv (run_renders batches st)"
  by (induction batches arbitrary: st) (simp_all add: history_inv_render)

lemma undo_redo_same_render:
  assumes "0 < currentIndex st"
  shows "currentIndex (snd (render [Undo, Redo] st)) \<noteq> currentIndex st"
  using assms by (simp add: render_def undo_call_def redo_call_def)

section \<open>Claims about the history manager\<close>

text \<open>
  C1. For every history state with history array \<open>h\<close> and current index \<open>i > 0\<close>, \<^verbatim>\<open>undo\<close>
  sets the current index to \<open>i - 1\<close>, leaves the array as it is and returns \<^verbatim>\<open>h[i - 1]\<close>;
  in a state of the hook that read is inside the array, so the value returned is the entry
  just before the current one.
\<close>

theorem undo_returns_previous:
  assumes "0 < currentIndex st"
  shows "currentIndex (snd (undo st)) = currentIndex st - 1
       \<and> history (snd (undo st)) = history st
       \<and> fst (undo st) = array_get (history st) (currentIndex st - 1)
       \<and> (history_inv st \<longrightarrow> fst (undo st) = Some (history st ! nat (currentIndex st - 1)))"
  using assms by (auto simp: undo_def history_inv_def array_get_def split: if_splits)

theorem undo_returns_previous_witness:
  "0 < currentIndex \<lparr>history = [10, 20, 30 :: nat], currentIndex = 2\<rparr>
   \<and> history_inv \<lparr>history = [10, 20, 30 :: nat], currentIndex = 2\<rparr>
   \<and> fst (undo \<lparr>history = [10, 20, 30 :: nat], currentIndex = 2\<rparr>) = Some 20
   \<and> currentIndex (snd (undo \<lparr>history = [10, 20, 30 :: nat], currentIndex = 2\<rparr>)) = 1
   \<and> history (snd (undo \<lparr>history = [10, 20, 30 :: nat], currentIndex = 2\<rparr>)) = [10, 20, 30]"
  using undo_returns_previous [of "\<lparr>history = [10, 20, 30 :: nat], currentIndex = 2\<rparr>"]
  by (simp add: history_inv_def array_get_def)

text \<open>
  C2 as it is written, for \<^verbatim>\<open>undo\<close> followed by \<^verbatim>\<open>redo\<close> with no render in between,
  fails: \<^verbatim>\<open>redo\<close> reads the index the render started with, not the one \<^verbatim>\<open>undo\<close> just
  requested. On the array \<open>[10, 20, 30]\<close> at index \<open>2\<close>, a state the hook reaches, \<^verbatim>\<open>undo\<close>
  returns \<open>20\<close> and requests index \<open>1\<close>, \<^verbatim>\<open>redo\<close> finds \<open>2 < 2\<close> false and returns
  \<^verbatim>\<open>undefined\<close>, and the next render has index \<open>1\<close>.
\<close>

theorem undo_redo_same_render_counterexample:
  "run_ops [PushState (10::nat), PushState 20, PushState 30] initial_state =
     \<lparr>history = [10, 20, 30], currentIndex = 2\<rparr>
   \<and> 0 < currentIndex \<lparr>history = [10, 20, 30 :: nat], currentIndex = 2\<rparr>
   \<and> render [Undo, Redo] \<lparr>history = [10, 20, 30 :: nat], currentIndex = 2\<rparr> =
       ([Some 20, None], \<lparr>history = [10, 20, 30], currentIndex = 1\<rparr>)
   \<and> snd (render [Undo, Redo] \<lparr>history = [10, 20, 30 :: nat], currentIndex = 2\<rparr>) \<noteq>
       \<lparr>history = [10, 20, 30], currentIndex = 2\<rparr>"
  by (simp add: initial_state_def pushState_def array_slice_def relative_index_def
      render_def undo_call_def redo_call_def array_get_def)

text \<open>
  C2, amended. In every state the hook reaches from its initial state, with current index
  \<open>i > 0\<close>: if the component renders again after \<^verbatim>\<open>undo\<close>, so that \<^verbatim>\<open>redo\<close> is called in the
  render that follows, then \<^verbatim>\<open>undo\<close> followed by \<^verbatim>\<open>redo\<close> gives back the very same state (the
  index is \<open>i\<close> again, the array is untouched), and that \<^verbatim>\<open>redo\<close> returns \<^verbatim>\<open>h[i]\<close>, the entry
  that was current before the \<^verbatim>\<open>undo\<close>.
\<close>

theorem undo_rerender_redo_restores:
  assumes "st = run_renders batches initial_state" and "0 < currentIndex st"
  shows "snd (render [Redo] (snd (render [Undo] st))) = st
       \<and> fst (render [Redo] (snd (render [Undo] st))) = [array_get (history st) (currentIndex st)]
       \<and> fst (render [Redo] (snd (render [Undo] st))) = [Some (history st ! nat (currentIndex st))]"
proof -
  from assms(1) have inv: "history_inv st"
    by (simp add: history_inv_run_renders history_inv_initial)
  then have "currentIndex st < int (length (history st))"
    by (auto simp: history_inv_def split: if_splits)
  with assms(2) have "array_get (history st) (currentIndex st) =
      Some (history st ! nat (currentIndex st))"
    by (simp add: array_get_def)
  with undo_redo_inv [OF inv assms(2)] show ?thesis
    by (simp add: render_undo render_redo)
qed

theorem undo_rerender_redo_restores_witness:
  "0 < currentIndex (run_renders [[PushState (10::nat)], [PushState 20], [PushState 30]] initial_state)
   \<and> run_renders [[PushState (10::nat)], [PushState 20], [PushState 30]] initial_state =
       \<lparr>history = [10, 20, 30], currentIndex = 2\<rparr>
   \<and> render [Undo] \<lparr>history = [10, 20, 30 :: nat], currentIndex = 2\<rparr> =
       ([Some 20], \<lparr>history = [10, 20, 30], currentIndex = 1\<rparr>)
   \<and> render [Redo] \<lparr>history = [10, 20, 30 :: nat], currentIndex = 1\<rparr> =
       ([Some 30], \<lparr>history = [10, 20, 30], currentIndex = 2\<rparr>)"
proof -
  let ?batches = "[[PushState (10::nat)], [PushState 20], [PushState 30]]"
  have run: "run_renders ?batches initial_state = \<lparr>history = [10, 20, 30], currentIndex = 2\<rparr>"
    by (simp add: initial_state_def render_def pushState_call_def array_slice_def
        relative_index_def)
  have pos: "0 < currentIndex (run_renders ?batches initial_state)"
    unfolding run by simp
  have u: "render [Undo] \<lparr>history = [10, 20, 30 :: nat], currentIndex = 2\<rparr> =
       ([Some 20], \<lparr>history = [10, 20, 30], currentIndex = 1\<rparr>)"
    by (simp add: render_def undo_call_def array_get_def)
  from undo_rerender_redo_restores [OF refl pos]
  have "render [Redo] (snd (render [Undo] \<lparr>history = [10, 20, 30 :: nat], currentIndex = 2\<rparr>)) =
       ([Some 30], \<lparr>history = [10, 20, 30], currentIndex = 2\<rparr>)"
    unfolding run by (simp add: prod_eq_iff array_get_def)
  then have "render [Redo] \<lparr>history = [10, 20, 30 :: nat], currentIndex = 1\<rparr> =
       ([Some 30], \<lparr>history = [10, 20, 30], currentIndex = 2\<rparr>)"
    by (simp add: u)
  with run pos u show ?thesis by blast
qed

text \<open>
  C3. For every history state with array \<open>h\<close> and current index \<open>i\<close>, \<^verbatim>\<open>pushState(s)\<close>
  makes the array \<^verbatim>\<open>h.slice(0, i + 1)\<close> with \<open>s\<close> appended and the index the last position
  of the new array. For \<open>i \<ge> -1\<close> that slice is the first \<open>i + 1\<close> entries of \<open>h\<close>, the
  entries up to and including position \<open>i\<close>; whatever lay beyond is dropped. In a state
  of the hook the new index is \<open>i + 1\<close>.
\<close>

theorem pushState_truncates_and_appends:
  "history (pushState s st) = array_slice (history st) 0 (currentIndex st + 1) @ [s]
   \<and> currentIndex (pushState s st) = int (length (history (pushState s st))) - 1
   \<and> (- 1 \<le> currentIndex st \<longrightarrow>
        history (pushState s st) = take (nat (currentIndex st + 1)) (history st) @ [s])
   \<and> (history_inv st \<longrightarrow> currentIndex (pushState s st) = currentIndex st + 1)"
proof -
  have a: "history (pushState s st) = array_slice (history st) 0 (currentIndex st + 1) @ [s]"
    by (simp add: pushState_def Let_def)
  have b: "currentIndex (pushState s st) = int (length (history (pushState s st))) - 1"
    by (simp add: pushState_def Let_def)
  have c: "history (pushState s st) = take (nat (currentIndex st + 1)) (history st) @ [s]"
    if "- 1 \<le> currentIndex st"
    using a array_slice_prefix [OF that] by simp
  have d: "currentIndex (pushState s st) = currentIndex st + 1" if "history_inv st"
  proof -
    from that have bounds: "- 1 \<le> currentIndex st"
      "currentIndex st \<le> int (length (history st)) - 1"
      using history_inv_bounds by blast+
    from c [OF bounds(1)] b bounds show ?thesis by simp
  qed
  from a b c d show ?thesis by blast
qed

theorem pushState_truncates_and_appends_witness:
  "- 1 \<le> currentIndex \<lparr>history = [10, 20, 30 :: nat], currentIndex = 1\<rparr>
   \<and> history_inv \<lparr>history = [10, 20, 30 :: nat], currentIndex = 1\<rparr>
   \<and> history (pushState 40 \<lparr>history = [10, 20, 30 :: nat], currentIndex = 1\<rparr>) = [10, 20, 40]
   \<and> currentIndex (pushState 40 \<lparr>history = [10, 20, 30 :: nat], currentIndex = 1\<rparr>) = 2"
  using pushState_truncates_and_appends
    [of 40 "\<lparr>history = [10, 20, 30 :: nat], currentIndex = 1\<rparr>"]
  by (simp add: history_inv_def array_slice_def relative_index_def)

text \<open>
  C8. From the initial state (empty array, index \<open>-1\<close>), after every finite sequence of
  \<^verbatim>\<open>pushState\<close>, \<^verbatim>\<open>undo\<close> and \<^verbatim>\<open>redo\<close> the index lies between \<open>-1\<close> and the length of the
  array minus one, and it is at least \<open>0\<close> when the array is not empty.
\<close>

theorem history_index_invariant:
  "- 1 \<le> currentIndex (run_ops ops initial_state)
   \<and> currentIndex (run_ops ops initial_state)
        \<le> int (length (history (run_ops ops initial_state))) - 1
   \<and> (history (run_ops ops initial_state) \<noteq> [] \<longrightarrow>
        0 \<le> currentIndex (run_ops ops initial_state))"
  using history_inv_reachable [of ops]
  by (auto simp: history_inv_def split: if_splits)

theorem history_index_invariant_witness:
  "history (run_ops [PushState (10::nat), PushState 20, Undo, Undo, Redo] initial_state) \<noteq> []
   \<and> 0 \<le> currentIndex (run_ops [PushState (10::nat), PushState 20, Undo, Undo, Redo] initial_state)
   \<and> currentIndex (run_ops [PushState (10::nat), PushState 20, Undo, Undo, Redo] initial_state)
        \<le> int (length (history
            (run_ops [PushState (10::nat), PushState 20, Undo, Undo, Redo] initial_state))) - 1"
proof -
  let ?ops = "[PushState (10::nat), PushState 20, Undo, Undo, Redo]"
  have "run_ops ?ops initial_state = \<lparr>history = [10, 20], currentIndex = 1\<rparr>"
    by (simp add: initial_state_def pushState_def undo_def redo_def array_slice_def
        relative_index_def)
  then have "history (run_ops ?ops initial_state) \<noteq> []" by (simp only:) simp
  with history_index_invariant [of ?ops] show ?thesis by blast
qed

text \<open>
  C9. In every history state, \<^verbatim>\<open>undo\<close> with index \<open>\<le> 0\<close> returns \<^verbatim>\<open>undefined\<close> and changes
  neither the array nor the index, and \<^verbatim>\<open>redo\<close> with index \<open>\<ge> length - 1\<close> returns
  \<^verbatim>\<open>undefined\<close> and changes neither.
\<close>

theorem undo_redo_boundary_noop:
  "(currentIndex st \<le> 0 \<longrightarrow> undo st = (None, st))
   \<and> (currentIndex st \<ge> int (length (history st)) - 1 \<longrightarrow> redo st = (None, st))"
  by (simp add: undo_def redo_def)

theorem undo_redo_boundary_noop_witness:
  "currentIndex \<lparr>history = [10 :: nat], currentIndex = 0\<rparr> \<le> 0
   \<and> currentIndex \<lparr>history = [10 :: nat], currentIndex = 0\<rparr>
        \<ge> int (length (history \<lparr>history = [10 :: nat], currentIndex = 0\<rparr>)) - 1
   \<and> undo \<lparr>history = [10 :: nat], currentIndex = 0\<rparr>
        = (None, \<lparr>history = [10], currentIndex = 0\<rparr>)
   \<and> redo \<lparr>history = [10 :: nat], currentIndex = 0\<rparr>
        = (None, \<lparr>history = [10], currentIndex = 0\<rparr>)"
  using undo_redo_boundary_noop [of "\<lparr>history = [10 :: nat], currentIndex = 0\<rparr>"]
  by simp

section \<open>Claims about the canvas event bridge\<close>

lemma js_or_empty:
  "js_or v (Array []) = Array (case v of Undefined \<Rightarrow> [] | Array xs \<Rightarrow> xs)"
  by (cases v) (simp_all add: js_or_def)

lemma fire_after_effect:
  assumes "canvas props = Some c"
  shows "fire (run_calls (useCanvasEvents_effect props) L) c ''selection:created'' e =
           fire L c ''selection:created'' e @ on_selection_created props e"
    and "fire (run_calls (useCanvasEvents_effect props) L) c ''selection:updated'' e =
           fire L c ''selection:updated'' e @ on_selection_updated props e"
    and "fire (run_calls (useCanvasEvents_effect props) L) c ''selection:cleared'' e =
           fire L c ''selection:cleared'' e @ on_selection_cleared props e"
  using assms by (simp_all add: useCanvasEvents_effect_def run_calls_def fire_def)

lemma fire_recording:
  "fire (run_calls (useCanvasEvents_effect (recording_props (Some c) provided)) no_listeners)
     c name e =
   (if name = ''selection:created'' \<or> name = ''selection:updated''
    then [SetSelectedObjects (js_or (selected e) (Array []))]
    else if name = ''selection:cleared''
    then SetSelectedObjects (Array []) # (if provided then [ClearSelectionCallBack] else [])
    else [])"
  by (simp add: useCanvasEvents_effect_def run_calls_def fire_def no_listeners_def
      recording_props_def on_selection_created_def on_selection_updated_def
      on_selection_cleared_def)

text \<open>
  C4. When the canvas is not \<^verbatim>\<open>null\<close>, after the effect has run (on a canvas with any
  listeners already there) every \<^verbatim>\<open>selection:created\<close> and every \<^verbatim>\<open>selection:updated\<close> event
  runs, after the earlier listeners, \<^verbatim>\<open>setSelectedObjects\<close> on the event's selected objects
  (the empty array when the event carries none), and every \<^verbatim>\<open>selection:cleared\<close> event runs
  \<^verbatim>\<open>setSelectedObjects\<close> on the empty array and then \<^verbatim>\<open>clearSelectionCallBack\<close>, if one was
  provided.
\<close>

theorem selection_events_forwarded:
  assumes "canvas props = Some c"
  shows "fire (run_calls (useCanvasEvents_effect props) L) c ''selection:created'' e =
           fire L c ''selection:created'' e @
           setSelectedObjects props (Array (case selected e of Undefined \<Rightarrow> [] | Array xs \<Rightarrow> xs))
       \<and> fire (run_calls (useCanvasEvents_effect props) L) c ''selection:updated'' e =
           fire L c ''selection:updated'' e @
           setSelectedObjects props (Array (case selected e of Undefined \<Rightarrow> [] | Array xs \<Rightarrow> xs))
       \<and> fire (run_calls (useCanvasEvents_effect props) L) c ''selection:cleared'' e =
           fire L c ''selection:cleared'' e @
           setSelectedObjects props (Array []) @
           (case clearSelectionCallBack props of None \<Rightarrow> [] | Some callback \<Rightarrow> callback)"
  using fire_after_effect [OF assms, of L e]
  by (simp add: on_selection_created_def on_selection_updated_def on_selection_cleared_def
      js_or_empty)

theorem selection_events_forwarded_witness:
  "canvas (recording_props (Some (0::nat)) True) = Some 0
   \<and> fire (run_calls (useCanvasEvents_effect (recording_props (Some (0::nat)) True)) no_listeners)
        0 ''selection:created'' \<lparr>selected = Array [1::nat, 2]\<rparr>
       = [SetSelectedObjects (Array [1, 2])]
   \<and> fire (run_calls (useCanvasEvents_effect (recording_props (Some (0::nat)) True)) no_listeners)
        0 ''selection:updated'' \<lparr>selected = Array [1::nat, 2]\<rparr>
       = [SetSelectedObjects (Array [1, 2])]
   \<and> fire (run_calls (useCanvasEvents_effect (recording_props (Some (0::nat)) True)) no_listeners)
        0 ''selection:cleared'' \<lparr>selected = Array [1::nat, 2]\<rparr>
       = [SetSelectedObjects (Array []), ClearSelectionCallBack]"
proof -
  let ?p = "recording_props (Some (0::nat)) True :: (nat, nat, nat callback_call) canvas_events_props"
  have c: "canvas ?p = Some 0" by (simp add: recording_props_def)
  have none: "fire (no_listeners :: (nat, nat, nat callback_call) listeners) 0 name e = []"
    for name e
    by (simp add: fire_def no_listeners_def)
  from selection_events_forwarded [OF c, of no_listeners "\<lparr>selected = Array [1::nat, 2]\<rparr>"]
  show ?thesis
    by (simp add: none c) (simp add: recording_props_def)
qed

text \<open>
  C5. When the canvas is not \<^verbatim>\<open>null\<close>, the effect attaches a handler for each of
  \<^verbatim>\<open>selection:created\<close>, \<^verbatim>\<open>selection:updated\<close> and \<^verbatim>\<open>selection:cleared\<close>, for nothing else, and
  detaches nothing; its cleanup detaches the handlers of those three events and does nothing
  else. When the canvas is \<^verbatim>\<open>null\<close>, neither makes any call.
\<close>

theorem effect_attaches_cleanup_detaches:
  "(canvas props = Some c \<longrightarrow>
      List.map_filter attached (useCanvasEvents_effect props) =
        [(c, ''selection:created''), (c, ''selection:updated''), (c, ''selection:cleared'')]
      \<and> List.map_filter detached (useCanvasEvents_effect props) = []
      \<and> useCanvasEvents_cleanup props =
        [Off c ''selection:created'', Off c ''selection:updated'', Off c ''selection:cleared''])
   \<and> (canvas props = None \<longrightarrow>
      useCanvasEvents_effect props = [] \<and> useCanvasEvents_cleanup props = [])"
  by (simp add: useCanvasEvents_effect_def useCanvasEvents_cleanup_def)

theorem effect_attaches_cleanup_detaches_witness:
  "canvas (recording_props (Some (0::nat)) False :: (nat, nat, nat callback_call) canvas_events_props)
     = Some 0
   \<and> List.map_filter attached
        (useCanvasEvents_effect
          (recording_props (Some (0::nat)) False :: (nat, nat, nat callback_call) canvas_events_props))
       = [(0, ''selection:created''), (0, ''selection:updated''), (0, ''selection:cleared'')]
   \<and> useCanvasEvents_cleanup
        (recording_props (Some (0::nat)) False :: (nat, nat, nat callback_call) canvas_events_props)
       = [Off 0 ''selection:created'', Off 0 ''selection:updated'', Off 0 ''selection:cleared'']
   \<and> canvas (recording_props None False :: (nat, nat, nat callback_call) canvas_events_props)
     = None
   \<and> useCanvasEvents_effect
        (recording_props None False :: (nat, nat, nat callback_call) canvas_events_props) = []
   \<and> useCanvasEvents_cleanup
        (recording_props None False :: (nat, nat, nat callback_call) canvas_events_props) = []"
proof -
  let ?p = "recording_props (Some (0::nat)) False :: (nat, nat, nat callback_call) canvas_events_props"
  let ?q = "recording_props None False :: (nat, nat, nat callback_call) canvas_events_props"
  have p: "canvas ?p = Some 0" and q: "canvas ?q = None"
    by (simp_all add: recording_props_def)
  from effect_attaches_cleanup_detaches [of ?p 0] effect_attaches_cleanup_detaches [of ?q 0] p q
  show ?thesis by blast
qed

text \<open>
  C10. \<^verbatim>\<open>setSelectedObjects\<close> is never called with \<^verbatim>\<open>undefined\<close>: with callbacks that record
  their calls, no event of any name makes a handler of the hook call it so; on a
  \<^verbatim>\<open>selection:created\<close> or \<^verbatim>\<open>selection:updated\<close> event whose \<^verbatim>\<open>selected\<close> field is absent the
  handler calls it with the empty array.
\<close>

theorem setSelectedObjects_never_undefined:
  "SetSelectedObjects Undefined \<notin>
     set (fire (run_calls (useCanvasEvents_effect (recording_props (Some c) provided))
            no_listeners) c name e)
   \<and> (selected e = Undefined \<longrightarrow>
        fire (run_calls (useCanvasEvents_effect (recording_props (Some c) provided))
          no_listeners) c ''selection:created'' e = [SetSelectedObjects (Array [])]
      \<and> fire (run_calls (useCanvasEvents_effect (recording_props (Some c) provided))
          no_listeners) c ''selection:updated'' e = [SetSelectedObjects (Array [])])"
  by (cases "selected e") (simp_all add: fire_recording js_or_def)

theorem setSelectedObjects_never_undefined_witness:
  "selected \<lparr>selected = (Undefined :: nat js_value)\<rparr> = Undefined
   \<and> fire (run_calls (useCanvasEvents_effect (recording_props (Some (0::nat)) True))
        no_listeners) 0 ''selection:created'' \<lparr>selected = (Undefined :: nat js_value)\<rparr>
       = [SetSelectedObjects (Array [])]
   \<and> fire (run_calls (useCanvasEvents_effect (recording_props (Some (0::nat)) True))
        no_listeners) 0 ''selection:updated'' \<lparr>selected = (Undefined :: nat js_value)\<rparr>
       = [SetSelectedObjects (Array [])]"
  using setSelectedObjects_never_undefined
    [of "0::nat" True "''selection:created''" "\<lparr>selected = (Undefined :: nat js_value)\<rparr>"]
  by simp

section \<open>Claims about autosave\<close>

text \<open>
  C6. For every project id and data, the autosave function never rejects; when
  \<^verbatim>\<open>saveProject\<close> fails, the function calls \<^verbatim>\<open>saveProject\<close> once, logs the error with
  \<^verbatim>\<open>console.error\<close>, and does nothing else.
\<close>

theorem autosave_failure_logged_only:
  "fst (autosave saveProject projectId data) = Inr ()
   \<and> (saveProject projectId data = Inl error \<longrightarrow>
        autosave saveProject projectId data =
          (Inr (), [SaveProject projectId data, ConsoleError ''Autosave failed:'' error]))"
  by (simp add: autosave_def try_catch_def await_saveProject_def console_error_def
      split: sum.splits)

theorem autosave_failure_logged_only_witness:
  "(\<lambda>p d. if d = (0::nat) then Inl ''offline'' else Inr ()) ''p1'' (0::nat) = Inl ''offline''
   \<and> autosave (\<lambda>p d. if d = (0::nat) then Inl ''offline'' else Inr ()) ''p1'' (0::nat) =
       (Inr (), [SaveProject ''p1'' 0, ConsoleError ''Autosave failed:'' ''offline''])"
  using autosave_failure_logged_only
    [of "\<lambda>p d. if d = (0::nat) then Inl ''offline'' else (Inr () :: string + unit)"
        "''p1''" "0::nat" "''offline''"]
  by simp

section \<open>Claims about the shape tool button\<close>

text \<open>
  C7. \<^verbatim>\<open>ShapeTool\<close> renders one button whose click handler is the \<^verbatim>\<open>onClick\<close> prop and whose
  only child is the icon component, given the class names merged by \<^verbatim>\<open>cn\<close> from
  \<^verbatim>\<open>"h-full w-full"\<close> and \<^verbatim>\<open>iconClassnane\<close>; two props objects that agree on \<^verbatim>\<open>icon\<close>,
  \<^verbatim>\<open>iconClassnane\<close> and \<^verbatim>\<open>onClick\<close> render the same output.
\<close>

theorem ShapeTool_pure_button:
  "ShapeTool cn props =
     Button (onClick props) ''aspect-square border rounded-md p-5''
       [Component (icon props) (cn [Some ''h-full w-full'', iconClassnane props])]
   \<and> (icon props = icon props' \<and> iconClassnane props = iconClassnane props'
        \<and> onClick props = onClick props'
      \<longrightarrow> ShapeTool cn props = ShapeTool cn props')"
  by (simp add: ShapeTool_def)

theorem ShapeTool_pure_button_witness:
  "icon \<lparr>icon = ''Circle'', iconClassnane = Some ''fill-black'', onClick = (1::nat)\<rparr>
     = icon \<lparr>icon = ''Circle'', iconClassnane = Some ''fill-black'', onClick = (1::nat),
             \<dots> = True\<rparr>
   \<and> ShapeTool (\<lambda>cs. concat (List.map_filter id cs))
        \<lparr>icon = ''Circle'', iconClassnane = Some ''fill-black'', onClick = (1::nat)\<rparr>
     = Button 1 ''aspect-square border rounded-md p-5''
         [Component ''Circle'' ''h-full w-fullfill-black'']
   \<and> ShapeTool (\<lambda>cs. concat (List.map_filter id cs))
        \<lparr>icon = ''Circle'', iconClassnane = Some ''fill-black'', onClick = (1::nat)\<rparr>
     = ShapeTool (\<lambda>cs. concat (List.map_filter id cs))
        \<lparr>icon = ''Circle'', iconClassnane = Some ''fill-black'', onClick = (1::nat),
         \<dots> = True\<rparr>"
  using ShapeTool_pure_button
    [of "\<lambda>cs. concat (List.map_filter id cs)"
        "\<lparr>icon = ''Circle'', iconClassnane = Some ''fill-black'', onClick = (1::nat)\<rparr>"
        "\<lparr>icon = ''Circle'', iconClassnane = Some ''fill-black'', onClick = (1::nat),
          \<dots> = True\<rparr>"]
  by auto

end
